theory Spec2Isabelle
  imports Complex_Main
begin

section \<open>Strings\<close>

text \<open>
  JavaScript strings are modelled as \<^typ>\<open>string\<close>. Case conversion is the ASCII one:
  the letters \<open>A\<close>..\<open>Z\<close> and \<open>a\<close>..\<open>z\<close> are mapped onto each other and every other
  character is left alone. JavaScript also converts letters outside ASCII; on strings
  with such letters the model does not follow it.
\<close>

definition upper_letters :: string where
  "upper_letters = ''ABCDEFGHIJKLMNOPQRSTUVWXYZ''"

definition lower_letters :: string where
  "lower_letters = ''abcdefghijklmnopqrstuvwxyz''"

definition digit_chars :: string where
  "digit_chars = ''0123456789''"

definition lowerChar :: "char \<Rightarrow> char" where
  "lowerChar c = (case map_of (zip upper_letters lower_letters) c of Some d \<Rightarrow> d | None \<Rightarrow> c)"

definition upperChar :: "char \<Rightarrow> char" where
  "upperChar c = (case map_of (zip lower_letters upper_letters) c of Some d \<Rightarrow> d | None \<Rightarrow> c)"

definition toLowerCase :: "string \<Rightarrow> string" where
  "toLowerCase s = map lowerChar s"

definition toUpperCase :: "string \<Rightarrow> string" where
  "toUpperCase s = map upperChar s"

text \<open>\<open>s.startsWith(p)\<close> and \<open>s.endsWith(p)\<close>; \<open>s.slice(0, -1)\<close> is \<^const>\<open>butlast\<close>.\<close>

definition startsWith :: "string \<Rightarrow> string \<Rightarrow> bool" where
  "startsWith s p = (take (length p) s = p)"

definition endsWith :: "string \<Rightarrow> string \<Rightarrow> bool" where
  "endsWith s p = (length p \<le> length s \<and> drop (length s - length p) s = p)"

text \<open>\<open>a || d\<close> on an optional string: \<open>undefined\<close>, \<open>null\<close> and \<open>''\<close> are falsy.\<close>

definition str_or :: "string option \<Rightarrow> string \<Rightarrow> string" where
  "str_or a d = (case a of None \<Rightarrow> d | Some s \<Rightarrow> if s = [] then d else s)"

text \<open>\<open>a || 0\<close> on an optional number.\<close>

definition num_or :: "rat option \<Rightarrow> rat \<Rightarrow> rat" where
  "num_or a d = (case a of None \<Rightarrow> d | Some x \<Rightarrow> if x = 0 then d else x)"

text \<open>Decimal rendering of a number inside a template literal.\<close>

definition digit_of :: "nat \<Rightarrow> char" where
  "digit_of d = digit_chars ! d"

function decimal :: "nat \<Rightarrow> string" where
  "decimal n = (if n < 10 then [digit_of n] else decimal (n div 10) @ [digit_of (n mod 10)])"
  by pat_completeness auto
termination
  by (relation "measure id") auto

declare decimal.simps [simp del]

section \<open>The platform's URL object\<close>

text \<open>
  \<open>new URL(s)\<close> either throws or yields an object with the components below.
  \<open>url_query\<close> is the URL's query (\<open>None\<close> when the URL has none) and
  \<open>searchParams\<close> the name/value list of the associated \<open>URLSearchParams\<close> object.
\<close>

record URL =
  protocol :: string
  hostname :: string
  pathname :: string
  url_query :: "string option"
  searchParams :: "(string \<times> string) list"

text \<open>The \<open>search\<close> getter: empty when the query is missing or empty.\<close>

definition search :: "URL \<Rightarrow> string" where
  "search url = (case url_query url of None \<Rightarrow> [] | Some q \<Rightarrow> if q = [] then [] else CHR ''?'' # q)"

text \<open>
  The \<open>application/x-www-form-urlencoded\<close> serializer, which rewrites the query after
  the parameter list has changed: alphanumerics and \<open>*-._\<close> stay, a space becomes \<open>+\<close>,
  every other byte is percent-encoded.
\<close>

definition hex_chars :: string where
  "hex_chars = ''0123456789ABCDEF''"

definition urlencode_char :: "char \<Rightarrow> string" where
  "urlencode_char c =
     (if c \<in> set (upper_letters @ lower_letters @ digit_chars @ ''*-._'') then [c]
      else if c = CHR '' '' then ''+''
      else [CHR ''%'', hex_chars ! ((of_char c :: nat) div 16), hex_chars ! ((of_char c :: nat) mod 16)])"

definition urlencode :: "string \<Rightarrow> string" where
  "urlencode s = concat (map urlencode_char s)"

fun join_amp :: "string list \<Rightarrow> string" where
  "join_amp [] = []"
| "join_amp [x] = x"
| "join_amp (x # y # ys) = x @ CHR ''&'' # join_amp (y # ys)"

definition urlencoded_serialize :: "(string \<times> string) list \<Rightarrow> string" where
  "urlencoded_serialize l = join_amp (map (\<lambda>(k, v). urlencode k @ CHR ''='' # urlencode v) l)"

text \<open>
  \<open>searchParams.delete(name)\<close>: every pair with that name goes, and the URL's query
  becomes the serialization of what is left (no query at all when nothing is left).
\<close>

definition searchParams_delete :: "string \<Rightarrow> URL \<Rightarrow> URL" where
  "searchParams_delete name url =
     (let l = filter (\<lambda>(k, v). k \<noteq> name) (searchParams url);
          s = urlencoded_serialize l
      in url\<lparr>url_query := (if s = [] then None else Some s), searchParams := l\<rparr>)"

text \<open>
  \<open>searchParams.forEach\<close> with the callback of \<open>normalizeRow\<close>. The iteration is by
  index over the live list: it visits position \<open>i\<close> of the list as it is at that
  moment, then moves on to \<open>i + 1\<close>.
\<close>

function forEach_delete_utm :: "nat \<Rightarrow> URL \<Rightarrow> URL" where
  "forEach_delete_utm i url =
     (if i < length (searchParams url)
      then forEach_delete_utm (i + 1)
             (if startsWith (toLowerCase (fst (searchParams url ! i))) ''utm_''
              then searchParams_delete (fst (searchParams url ! i)) url
              else url)
      else url)"
  by pat_completeness auto
termination
proof (relation "measure (\<lambda>(i, url). length (searchParams url) - i)")
  show "wf (measure (\<lambda>(i, url). length (searchParams url) - i))"
    by simp
next
  fix i :: nat and url :: URL
  assume lt: "i < length (searchParams url)"
  let ?u = "if startsWith (toLowerCase (fst (searchParams url ! i))) ''utm_''
            then searchParams_delete (fst (searchParams url ! i)) url else url"
  have "length (searchParams ?u) \<le> length (searchParams url)"
    by (simp add: searchParams_delete_def Let_def)
  with lt show "((i + 1, ?u), (i, url)) \<in> measure (\<lambda>(i, url). length (searchParams url) - i)"
    by simp
qed

declare forEach_delete_utm.simps [simp del]

section \<open>Rows and documents\<close>

text \<open>
  A row of the reporting API: the dimension keys (the array may be missing, an entry
  may be \<open>null\<close>) and the optional measures.
\<close>

record GscApiRow =
  keys :: "string option list option"
  row_clicks :: "rat option"
  row_impressions :: "rat option"
  row_ctr :: "rat option"
  row_position :: "rat option"

datatype FieldValue = ServerTimestamp

record GscFirestoreDoc =
  siteUrl :: string
  normalizedUrl :: string
  query :: string
  date :: string
  impressions :: rat
  clicks :: rat
  position :: rat
  ctr :: rat
  device :: string
  country :: string
  searchAppearance :: string
  ingestedAt :: FieldValue

text \<open>Array destructuring: a position beyond the end of the array is \<open>undefined\<close>.\<close>

definition key_at :: "string option list \<Rightarrow> nat \<Rightarrow> string option" where
  "key_at ks i = (if i < length ks then ks ! i else None)"

section \<open>normalizeRow\<close>

text \<open>
  The body of the \<open>try\<close> block once \<open>new URL\<close> has succeeded: nothing after the
  constructor can throw.
\<close>

definition canonical :: "URL \<Rightarrow> string" where
  "canonical url0 =
     (let url = forEach_delete_utm 0 url0;
          path = pathname url;
          path = (if length path > 1 \<and> endsWith path ''/'' then butlast path else path)
      in protocol url @ ''//'' @ toLowerCase (hostname url) @ path @ search url)"

text \<open>
  The \<open>try\<close>/\<open>catch\<close> around it. \<open>newURL\<close> is the platform's constructor, \<open>None\<close>
  when it throws.
\<close>

definition normalizeUrl :: "(string \<Rightarrow> URL option) \<Rightarrow> string \<Rightarrow> string" where
  "normalizeUrl newURL finalPage =
     (case newURL finalPage of
        Some url \<Rightarrow> canonical url
      | None \<Rightarrow> str_or (Some finalPage) ''INVALID_URL'')"

definition normalizeRow ::
  "(string \<Rightarrow> URL option) \<Rightarrow> GscApiRow \<Rightarrow> string \<Rightarrow> string \<Rightarrow> GscFirestoreDoc" where
  "normalizeRow newURL rawRow site day =
     (let ks = (case keys rawRow of None \<Rightarrow> [] | Some k \<Rightarrow> k);
          page = key_at ks 0;
          query_key = key_at ks 1;
          device_key = key_at ks 2;
          country_key = key_at ks 3;
          searchAppearance_key = key_at ks 4;
          finalPage = str_or page []
      in \<lparr> siteUrl = site,
           normalizedUrl = normalizeUrl newURL finalPage,
           query = str_or query_key [],
           date = day,
           impressions = num_or (row_impressions rawRow) 0,
           clicks = num_or (row_clicks rawRow) 0,
           position = num_or (row_position rawRow) 0,
           ctr = num_or (row_ctr rawRow) 0,
           device = str_or device_key ''UNKNOWN'',
           country = toUpperCase (str_or country_key ''zzz''),
           searchAppearance = str_or searchAppearance_key ''NONE'',
           ingestedAt = ServerTimestamp \<rparr>)"

section \<open>A reference URL parser\<close>

text \<open>
  \<open>parseURL\<close> is the URL constructor on the plain absolute form
  \<open>http(s)://host[/path][?query][#fragment]\<close>: an ASCII host name of non-empty labels
  whose last label starts with a letter (so it is no IPv4 address) and that has no
  punycode label, no credentials and no port; a path of unreserved and sub-delimiter
  characters without dot segments; a query without percent escapes. On this form the
  constructor lower-cases scheme and host, gives the root path to a URL without one,
  and keeps path and query as written. Outside this form the model does not follow
  the constructor: \<open>parseURL\<close> answers \<open>None\<close> there as well, although the
  constructor reads many such strings (with a port, credentials, percent escapes and
  so on). \<open>url_covered\<close> below marks the strings on which the answer of \<open>parseURL\<close>
  is the constructor's; no statement about every string is made through \<open>parseURL\<close>.
\<close>

fun split_on :: "char \<Rightarrow> string \<Rightarrow> string list" where
  "split_on d [] = [[]]"
| "split_on d (c # cs) =
     (if c = d then [] # split_on d cs
      else (case split_on d cs of [] \<Rightarrow> [[c]] | w # ws \<Rightarrow> (c # w) # ws))"

definition isAlpha :: "char \<Rightarrow> bool" where
  "isAlpha c = (c \<in> set (upper_letters @ lower_letters))"

definition isAlnum :: "char \<Rightarrow> bool" where
  "isAlnum c = (c \<in> set (upper_letters @ lower_letters @ digit_chars))"

definition host_char :: "char \<Rightarrow> bool" where
  "host_char c = (isAlnum c \<or> c \<in> set ''-.'')"

definition path_char :: "char \<Rightarrow> bool" where
  "path_char c = (isAlnum c \<or> c \<in> set ''-._~!$&()*+,;=:@/'')"

definition query_char :: "char \<Rightarrow> bool" where
  "query_char c = (isAlnum c \<or> c \<in> set ''-._~!$&()*+,;=:@/?'')"

definition label_ok :: "string \<Rightarrow> bool" where
  "label_ok l = (l \<noteq> [] \<and> \<not> startsWith (toLowerCase l) ''xn--'')"

definition host_ok :: "string \<Rightarrow> bool" where
  "host_ok h =
     (list_all host_char h \<and> list_all label_ok (split_on CHR ''.'' h) \<and>
      (case last (split_on CHR ''.'' h) of [] \<Rightarrow> False | c # cs \<Rightarrow> isAlpha c))"

definition path_ok :: "string \<Rightarrow> bool" where
  "path_ok p =
     (list_all path_char p \<and>
      list_all (\<lambda>seg. seg \<noteq> ''.'' \<and> seg \<noteq> ''..'') (split_on CHR ''/'' p))"

definition strip_scheme :: "string \<Rightarrow> (string \<times> string) option" where
  "strip_scheme s =
     (if toLowerCase (take 8 s) = ''https://'' then Some (''https:'', drop 8 s)
      else if toLowerCase (take 7 s) = ''http://'' then Some (''http:'', drop 7 s)
      else None)"

text \<open>
  The \<open>application/x-www-form-urlencoded\<close> parser on a query without percent escapes:
  split at \<open>&\<close>, skip empty pieces, split each piece at its first \<open>=\<close>, read \<open>+\<close> as a
  space.
\<close>

definition plus_to_space :: "string \<Rightarrow> string" where
  "plus_to_space s = map (\<lambda>c. if c = CHR ''+'' then CHR '' '' else c) s"

definition parse_pair :: "string \<Rightarrow> string \<times> string" where
  "parse_pair piece =
     (plus_to_space (takeWhile (\<lambda>c. c \<noteq> CHR ''='') piece),
      plus_to_space (case dropWhile (\<lambda>c. c \<noteq> CHR ''='') piece of [] \<Rightarrow> [] | c # v \<Rightarrow> v))"

definition urlencoded_parse :: "string \<Rightarrow> (string \<times> string) list" where
  "urlencoded_parse q = map parse_pair (filter (\<lambda>piece. piece \<noteq> []) (split_on CHR ''&'' q))"

definition parseURL :: "string \<Rightarrow> URL option" where
  "parseURL s =
     (case strip_scheme s of
        None \<Rightarrow> None
      | Some (scheme, rest) \<Rightarrow>
          (let host = takeWhile (\<lambda>c. c \<notin> set ''/?#'') rest;
               rest1 = dropWhile (\<lambda>c. c \<notin> set ''/?#'') rest;
               path = takeWhile (\<lambda>c. c \<notin> set ''?#'') rest1;
               rest2 = dropWhile (\<lambda>c. c \<notin> set ''?#'') rest1;
               q = (case rest2 of
                      [] \<Rightarrow> None
                    | c # cs \<Rightarrow> if c = CHR ''?'' then Some (takeWhile (\<lambda>c. c \<noteq> CHR ''#'') cs)
                               else None)
           in if host_ok host \<and> path_ok path \<and> (case q of None \<Rightarrow> True | Some qs \<Rightarrow> list_all query_char qs)
              then Some \<lparr> protocol = scheme,
                          hostname = toLowerCase host,
                          pathname = (if path = [] then ''/'' else path),
                          url_query = q,
                          searchParams = (case q of None \<Rightarrow> [] | Some qs \<Rightarrow> urlencoded_parse qs) \<rparr>
              else None))"

text \<open>
  The constructor, called without a base URL, throws on every string in which it finds
  no scheme: after leading and trailing control characters and spaces are dropped and
  tabs and newlines removed, the string must start with a letter, followed by letters,
  digits, \<open>+\<close>, \<open>-\<close> or \<open>.\<close> and then a colon. \<open>parseURL\<close> is the constructor on
  the strings it reads and on the strings without a scheme.
\<close>

definition c0_or_space :: "char \<Rightarrow> bool" where
  "c0_or_space c = ((of_char c :: nat) \<le> 32)"

definition tab_or_newline :: "char \<Rightarrow> bool" where
  "tab_or_newline c = ((of_char c :: nat) \<in> {9, 10, 13})"

definition scheme_char :: "char \<Rightarrow> bool" where
  "scheme_char c = (isAlnum c \<or> c \<in> set ''+-.'')"

definition lacks_scheme :: "string \<Rightarrow> bool" where
  "lacks_scheme s =
     (case filter (\<lambda>c. \<not> tab_or_newline c) (dropWhile c0_or_space (rev (dropWhile c0_or_space (rev s)))) of
        [] \<Rightarrow> True
      | c # cs \<Rightarrow> \<not> isAlpha c \<or>
          (case dropWhile scheme_char cs of [] \<Rightarrow> True | d # ds \<Rightarrow> d \<noteq> CHR '':''))"

definition url_covered :: "string \<Rightarrow> bool" where
  "url_covered s = (parseURL s \<noteq> None \<or> lacks_scheme s)"

text \<open>
  The parameters of a URL among which the callback of \<open>normalizeRow\<close> finds nothing to
  delete.
\<close>

definition no_tracking_params :: "URL \<Rightarrow> bool" where
  "no_tracking_params url =
     list_all (\<lambda>kv. \<not> startsWith (toLowerCase (fst kv)) ''utm_'') (searchParams url)"

text \<open>
  The constructor reads a canonical URL back as \<open>normalizeRow\<close> printed it: the
  protocol, the lower-cased host, the path after the slash was stripped and the query
  string that the first pass left are the components of the URL read.
\<close>

definition reads_back :: "URL \<Rightarrow> URL \<Rightarrow> bool" where
  "reads_back url url1 =
     (let url' = forEach_delete_utm 0 url
      in protocol url1 = protocol url' \<and>
         hostname url1 = toLowerCase (hostname url') \<and>
         pathname url1 =
           (if length (pathname url') > 1 \<and> endsWith (pathname url') ''/''
            then butlast (pathname url') else pathname url') \<and>
         search url1 = search url')"

section \<open>fetchGSCDataForDate\<close>

text \<open>
  An error value carries its message. A call either returns or throws; the fetch loop
  may in addition still be waiting for an answer (see below).
\<close>

datatype error = Error string

datatype 'a outcome = Returned 'a | Threw error

text \<open>
  One answer of \<open>gscClient.searchanalytics.query\<close>: the promise rejects, or it
  resolves with \<open>response.data.rows\<close>, which may be missing.
\<close>

datatype response = Rejected error | Resolved "GscApiRow list option"

record request =
  req_siteUrl :: string
  req_startDate :: string
  req_endDate :: string
  req_dimensions :: "string list"
  req_rowLimit :: nat
  req_startRow :: nat
  req_type :: string

definition rowLimit :: nat where
  "rowLimit = 25000"

definition maxRetries :: nat where
  "maxRetries = 5"

definition mk_request :: "string \<Rightarrow> string \<Rightarrow> nat \<Rightarrow> request" where
  "mk_request site day startRow =
     \<lparr> req_siteUrl = site, req_startDate = day, req_endDate = day,
       req_dimensions = [''page'', ''query'', ''device'', ''country'', ''searchAppearance''],
       req_rowLimit = rowLimit, req_startRow = startRow, req_type = ''web'' \<rparr>"

definition exhausted_message :: "string \<Rightarrow> string" where
  "exhausted_message day =
     ''Failed to fetch GSC data for '' @ day @ '' after '' @ decimal maxRetries @ '' attempts.''"

text \<open>
  The \<open>while (hasMore)\<close> loop. The client is the list of its successive answers, one
  per request; \<open>sent\<close> collects the requests in the order they are issued. When the
  answers run out while the loop still wants to issue a request, the result is
  \<open>None\<close>: the call has not returned. The back-off sleep between two attempts
  takes time and has no other effect; it is not part of the model.
\<close>

fun fetch_loop ::
  "response list \<Rightarrow> string \<Rightarrow> string \<Rightarrow> GscApiRow list \<Rightarrow> nat \<Rightarrow> nat \<Rightarrow> request list
     \<Rightarrow> GscApiRow list outcome option \<times> request list" where
  "fetch_loop [] site day allRows startRow attempt sent = (None, sent)"
| "fetch_loop (r # rs) site day allRows startRow attempt sent =
     (case r of
        Resolved rows \<Rightarrow>
          (case rows of
             Some rws \<Rightarrow>
               if length rws > 0
               then (if length rws = rowLimit
                     then fetch_loop rs site day (allRows @ rws) (startRow + length rws) 0
                            (sent @ [mk_request site day startRow])
                     else (Some (Returned (allRows @ rws)), sent @ [mk_request site day startRow]))
               else (Some (Returned allRows), sent @ [mk_request site day startRow])
           | None \<Rightarrow> (Some (Returned allRows), sent @ [mk_request site day startRow]))
      | Rejected e \<Rightarrow>
          if attempt < maxRetries
          then fetch_loop rs site day allRows startRow (attempt + 1)
                 (sent @ [mk_request site day startRow])
          else (Some (Threw (Error (exhausted_message day))), sent @ [mk_request site day startRow]))"

definition fetchGSCDataForDate ::
  "response list \<Rightarrow> string \<Rightarrow> string \<Rightarrow> GscApiRow list outcome option \<times> request list" where
  "fetchGSCDataForDate gscClient site day = fetch_loop gscClient site day [] 0 0 []"


section \<open>writeToFirestoreInBatches\<close>

text \<open>
  What the function does to the store: the number of \<open>db.batch()\<close> calls, of
  \<open>db.collection(path).doc()\<close> calls (one per document, each followed by one
  \<open>batch.set\<close>), of \<open>batch.commit()\<close> calls, and the batches whose commit went
  through, in order, every write with the collection it goes to.
\<close>

record firestore =
  batch_calls :: nat
  doc_calls :: nat
  commit_calls :: nat
  committed :: "(string \<times> GscFirestoreDoc) list list"

definition batchSize :: nat where
  "batchSize = 500"

text \<open>
  The \<open>for\<close> loop over \<open>i = 0, batchSize, 2 * batchSize, ...\<close>. The store is given
  by \<open>db\<close>: whether its \<open>n\<close>-th commit rejects, and with which error. A rejected
  commit is rethrown as it is.
\<close>

function write_loop ::
  "(nat \<Rightarrow> error option) \<Rightarrow> string \<Rightarrow> GscFirestoreDoc list \<Rightarrow> nat \<Rightarrow> firestore
     \<Rightarrow> unit outcome \<times> firestore" where
  "write_loop db collectionPath documents i st =
     (if i < length documents
      then (case db (commit_calls st) of
              None \<Rightarrow>
                write_loop db collectionPath documents (i + batchSize)
                  (st\<lparr> batch_calls := batch_calls st + 1,
                       doc_calls := doc_calls st + length (take batchSize (drop i documents)),
                       commit_calls := commit_calls st + 1,
                       committed := committed st @
                         [map (Pair collectionPath) (take batchSize (drop i documents))] \<rparr>)
            | Some e \<Rightarrow>
                (Threw e,
                 st\<lparr> batch_calls := batch_calls st + 1,
                      doc_calls := doc_calls st + length (take batchSize (drop i documents)),
                      commit_calls := commit_calls st + 1 \<rparr>))
      else (Returned (), st))"
  by pat_completeness auto
termination
  by (relation "measure (\<lambda>(db, collectionPath, documents, i, st). length documents - i)")
     (auto simp: batchSize_def)

declare write_loop.simps [simp del]

definition writeToFirestoreInBatches ::
  "(nat \<Rightarrow> error option) \<Rightarrow> string \<Rightarrow> GscFirestoreDoc list \<Rightarrow> firestore
     \<Rightarrow> unit outcome \<times> firestore" where
  "writeToFirestoreInBatches db collectionPath documents st =
     write_loop db collectionPath documents 0 st"

text \<open>
  The number of rounds the loop has left at index \<open>i\<close>, and the batch of round \<open>k\<close>
  counted from there.
\<close>

definition batches_from :: "nat \<Rightarrow> GscFirestoreDoc list \<Rightarrow> nat" where
  "batches_from i documents = (length documents - i + (batchSize - 1)) div batchSize"

definition chunk_at :: "string \<Rightarrow> GscFirestoreDoc list \<Rightarrow> nat \<Rightarrow> nat \<Rightarrow> (string \<times> GscFirestoreDoc) list" where
  "chunk_at collectionPath documents i k =
     map (Pair collectionPath) (take batchSize (drop (i + k * batchSize) documents))"

section \<open>ingestGSCData\<close>


datatype day_report = Wrote string nat | NoRows string | Failed string error



text \<open>
  What the module takes from outside: the API client (its answers to the successive
  requests for a given date), the store (which commits reject), the URL constructor,
  and the \<open>Date\<close> object. A \<open>Date\<close> is its time value in milliseconds:
  \<open>env_parseDate\<close> is \<open>new Date(s)\<close> (\<open>None\<close> for an invalid date, which
  compares false with everything, so the loop body never runs), \<open>env_nextDay\<close> is
  the time value after \<open>setDate(getDate() + 1)\<close>, one day later on the local
  calendar, and \<open>env_isoDate\<close> is \<open>toISOString().split('T')[0]\<close>, the UTC date.
\<close>

record env =
  env_gscClient :: "string \<Rightarrow> response list"
  env_db :: "nat \<Rightarrow> error option"
  env_newURL :: "string \<Rightarrow> URL option"
  env_parseDate :: "string \<Rightarrow> int option"
  env_nextDay :: "int \<Rightarrow> int"
  env_isoDate :: "int \<Rightarrow> string"





text \<open>
  The time values \<open>dt\<close> takes in the loop, in order: \<open>loop_dates next start end ts\<close>
  says that the loop body runs at exactly the instants \<open>ts\<close> and the loop then ends.
  Where the local calendar day is 24 hours these are all the days from \<open>start\<close> to
  \<open>end\<close>; a local day of 25 hours moves the later instants past midnight UTC, and the
  last day of the range is then not reached.
\<close>

fun loop_dates :: "(int \<Rightarrow> int) \<Rightarrow> int \<Rightarrow> int \<Rightarrow> int list \<Rightarrow> bool" where
  "loop_dates next dt endTime [] = (\<not> dt \<le> endTime)"
| "loop_dates next dt endTime (t # ts) = (dt \<le> endTime \<and> t = dt \<and> loop_dates next (next dt) endTime ts)"

text \<open>
  The specification of the orchestrator, in the words of the spec: for each day in
  turn, fetch, then normalize every row in its order, then persist to the collection;
  an error raised by the fetch or by the persist is recorded for that day and the next
  day follows; a day counts its rows when its write completed.
  \<open>spec_days e site days st reports sent st'\<close> relates a list of days and the store
  before them to the reports of these days, the requests sent and the store after
  them. Each day's write is the one on the store that the days before it left.
\<close>

inductive spec_days ::
  "env \<Rightarrow> string \<Rightarrow> string list \<Rightarrow> firestore \<Rightarrow> day_report list \<Rightarrow> request list \<Rightarrow> firestore \<Rightarrow> bool"
  for e :: env and site :: string where
  no_days:
    "spec_days e site [] st [] [] st"
| fetch_failed:
    "fetchGSCDataForDate (env_gscClient e d) site d = (Some (Threw err), sent) \<Longrightarrow>
     spec_days e site ds st rs reqs st' \<Longrightarrow>
     spec_days e site (d # ds) st (Failed d err # rs) (sent @ reqs) st'"
| no_rows:
    "fetchGSCDataForDate (env_gscClient e d) site d = (Some (Returned []), sent) \<Longrightarrow>
     spec_days e site ds st rs reqs st' \<Longrightarrow>
     spec_days e site (d # ds) st (NoRows d # rs) (sent @ reqs) st'"
| written:
    "fetchGSCDataForDate (env_gscClient e d) site d = (Some (Returned rawRows), sent) \<Longrightarrow>
     rawRows \<noteq> [] \<Longrightarrow>
     writeToFirestoreInBatches (env_db e) ''ingestion/gsc/daily''
       (map (\<lambda>row. normalizeRow (env_newURL e) row site d) rawRows) st = (Returned (), st1) \<Longrightarrow>
     spec_days e site ds st1 rs reqs st' \<Longrightarrow>
     spec_days e site (d # ds) st (Wrote d (length rawRows) # rs) (sent @ reqs) st'"
| write_failed:
    "fetchGSCDataForDate (env_gscClient e d) site d = (Some (Returned rawRows), sent) \<Longrightarrow>
     rawRows \<noteq> [] \<Longrightarrow>
     writeToFirestoreInBatches (env_db e) ''ingestion/gsc/daily''
       (map (\<lambda>row. normalizeRow (env_newURL e) row site d) rawRows) st = (Threw err, st1) \<Longrightarrow>
     spec_days e site ds st1 rs reqs st' \<Longrightarrow>
     spec_days e site (d # ds) st (Failed d err # rs) (sent @ reqs) st'"

code_pred spec_days .

section \<open>Test data\<close>

text \<open>The row of the repository's normalizer tests, with a given page key.\<close>

definition test_row :: "string \<Rightarrow> GscApiRow" where
  "test_row page =
     \<lparr> keys = Some [Some page, Some ''query'', Some ''device'', Some ''country'', Some ''search''],
       row_clicks = Some 10, row_impressions = Some 100, row_ctr = Some (1 / 10),
       row_position = Some 1 \<rparr>"

text \<open>A store nothing has been done to, and the document of the repository's batching tests.\<close>

definition empty_firestore :: firestore where
  "empty_firestore = \<lparr> batch_calls = 0, doc_calls = 0, commit_calls = 0, committed = [] \<rparr>"

definition test_doc :: GscFirestoreDoc where
  "test_doc =
     \<lparr> siteUrl = ''site'', normalizedUrl = ''url'', query = ''query'', date = ''2023-01-01'',
       impressions = 1, clicks = 1, position = 1, ctr = 1, device = ''d'', country = ''c'',
       searchAppearance = ''s'', ingestedAt = ServerTimestamp \<rparr>"


section \<open>Properties of normalizeRow\<close>

lemmas char_defs =
  toLowerCase_def toUpperCase_def lowerChar_def upperChar_def upper_letters_def
  lower_letters_def digit_chars_def hex_chars_def isAlpha_def isAlnum_def
  startsWith_def endsWith_def

lemmas url_defs =
  parseURL_def strip_scheme_def host_ok_def path_ok_def label_ok_def host_char_def
  path_char_def query_char_def urlencoded_parse_def parse_pair_def plus_to_space_def
  searchParams_delete_def urlencoded_serialize_def urlencode_def urlencode_char_def
  search_def

lemmas cover_defs =
  url_covered_def lacks_scheme_def c0_or_space_def tab_or_newline_def scheme_char_def

lemmas normalize_defs =
  normalizeRow_def normalizeUrl_def canonical_def forEach_delete_utm.simps key_at_def
  str_or_def num_or_def Let_def

text \<open>
  C1: when the page key is a non-empty string that the URL constructor rejects, the
  \<open>catch\<close> block stores that string itself as \<open>normalizedUrl\<close>; the sentinel
  \<open>INVALID_URL\<close> is stored only when the page is empty. (The function returns a record
  in every case: the constructor is the only call that can throw, and it is caught.)
\<close>

theorem normalizeRow_keeps_unparsable_page:
  assumes "keys rawRow = Some (Some page # ks)" and "page \<noteq> []" and "newURL page = None"
  shows "normalizedUrl (normalizeRow newURL rawRow site day) = page"
  using assms by (simp add: normalizeRow_def normalizeUrl_def key_at_def str_or_def Let_def)

theorem normalizeRow_keeps_unparsable_page_witness:
  "url_covered ''not a valid url'' \<and> parseURL ''not a valid url'' = None \<and>
   normalizedUrl (normalizeRow parseURL (test_row ''not a valid url'') ''sc-domain:example.com'' ''2023-01-01'')
     = ''not a valid url'' \<and>
   normalizedUrl (normalizeRow parseURL (test_row []) ''sc-domain:example.com'' ''2023-01-01'')
     = ''INVALID_URL''"
  using normalizeRow_keeps_unparsable_page [of "test_row ''not a valid url''" "''not a valid url''"
      "[Some ''query'', Some ''device'', Some ''country'', Some ''search'']" parseURL
      "''sc-domain:example.com''" "''2023-01-01''"]
  by (simp add: test_row_def normalize_defs url_defs char_defs cover_defs)

text \<open>
  C2, at a page with two adjacent tracking parameters: deleting \<open>utm_source\<close> during
  the iteration moves \<open>utm_medium\<close> to the position just visited, so the iteration
  steps over it and it stays in the canonical URL.
\<close>

theorem normalizeRow_skips_adjacent_utm:
  "normalizedUrl (normalizeRow parseURL
      (test_row ''https://example.com/page?utm_source=google&utm_medium=cpc&other=param'')
      ''sc-domain:example.com'' ''2023-01-01'')
     = ''https://example.com/page?utm_medium=cpc&other=param''"
  by (simp add: test_row_def normalize_defs url_defs char_defs)

text \<open>
  C3, at a page with an upper-case path and at a root page: the path keeps its case,
  and the root path \<open>/\<close> keeps its slash (only a path longer than one character loses
  a trailing slash).
\<close>

theorem normalizeRow_keeps_path_case_and_root_slash:
  "normalizedUrl (normalizeRow parseURL (test_row ''https://EXAMPLE.com/PAGE'')
      ''sc-domain:example.com'' ''2023-01-01'') = ''https://example.com/PAGE'' \<and>
   normalizedUrl (normalizeRow parseURL (test_row ''https://example.com/'')
      ''sc-domain:example.com'' ''2023-01-01'') = ''https://example.com/'' \<and>
   normalizedUrl (normalizeRow parseURL (test_row ''https://example.com'')
      ''sc-domain:example.com'' ''2023-01-01'') = ''https://example.com/''"
  by (simp add: test_row_def normalize_defs url_defs char_defs)

text \<open>
  C9 as stated fails when the country key is absent: the default is \<open>zzz\<close>,
  upper-cased with every other value, not \<open>UNKNOWN\<close>.
\<close>

theorem normalizeRow_country_default_counterexample:
  "country (normalizeRow parseURL
      \<lparr> keys = Some [Some ''https://example.com/page'', Some ''query'', Some ''device''],
        row_clicks = Some 10, row_impressions = Some 100, row_ctr = Some (1 / 10),
        row_position = Some 1 \<rparr> ''sc-domain:example.com'' ''2023-01-01'') \<noteq> ''UNKNOWN''"
  by (simp add: normalize_defs char_defs)

text \<open>
  C9, amended: whatever the URL constructor does, the country of the record is the
  upper-cased country key when the row has a non-empty one, and \<open>ZZZ\<close> when the key
  is missing, \<open>null\<close> or empty.
\<close>

theorem normalizeRow_country:
  "country (normalizeRow newURL rawRow site day) =
     (case key_at (case keys rawRow of None \<Rightarrow> [] | Some ks \<Rightarrow> ks) 3 of
        None \<Rightarrow> ''ZZZ''
      | Some c \<Rightarrow> if c = [] then ''ZZZ'' else toUpperCase c)"
  by (simp add: normalizeRow_def Let_def str_or_def char_defs split: option.splits)

theorem normalizeRow_country_witness:
  "country (normalizeRow parseURL (test_row ''https://example.com/page'')
      ''sc-domain:example.com'' ''2023-01-01'') = ''COUNTRY'' \<and>
   country (normalizeRow parseURL
      \<lparr> keys = None, row_clicks = None, row_impressions = None, row_ctr = None,
        row_position = None \<rparr> ''sc-domain:example.com'' ''2023-01-01'') = ''ZZZ''"
  using normalizeRow_country [of parseURL "test_row ''https://example.com/page''"
      "''sc-domain:example.com''" "''2023-01-01''"]
    normalizeRow_country [of parseURL
      "\<lparr> keys = None, row_clicks = None, row_impressions = None, row_ctr = None,
         row_position = None \<rparr>" "''sc-domain:example.com''" "''2023-01-01''"]
  by (simp add: test_row_def key_at_def char_defs)

section \<open>Canonicalizing a canonical URL\<close>

text \<open>
  The record's \<open>normalizedUrl\<close> is \<open>normalizeUrl\<close> of the page key (of the empty string
  when the key is missing).
\<close>

lemma normalizeRow_normalizedUrl:
  "normalizedUrl (normalizeRow newURL rawRow site day) =
     normalizeUrl newURL (str_or (key_at (case keys rawRow of None \<Rightarrow> [] | Some ks \<Rightarrow> ks) 0) [])"
  by (simp add: normalizeRow_def Let_def)

lemma lowerChar_idem: "lowerChar (lowerChar c) = lowerChar c"
  by (auto simp: lowerChar_def upper_letters_def lower_letters_def split: option.splits if_splits)

lemma toLowerCase_idem: "toLowerCase (toLowerCase s) = toLowerCase s"
  by (simp add: toLowerCase_def lowerChar_idem)

lemma lowerChar_dot: "(lowerChar c = CHR ''.'') = (c = CHR ''.'')"
  by (auto simp: lowerChar_def upper_letters_def lower_letters_def split: option.splits if_splits)

lemma host_char_lower: "host_char c \<Longrightarrow> host_char (lowerChar c)"
  by (auto simp: host_char_def isAlnum_def lowerChar_def upper_letters_def lower_letters_def digit_chars_def)

lemma isAlpha_lower: "isAlpha c \<Longrightarrow> isAlpha (lowerChar c)"
  by (auto simp: isAlpha_def lowerChar_def upper_letters_def lower_letters_def)

lemma host_char_not_delim: "host_char c \<Longrightarrow> c \<notin> set ''/?#''"
  by (auto simp: host_char_def isAlnum_def upper_letters_def lower_letters_def digit_chars_def)

lemma path_char_not_delim: "path_char c \<Longrightarrow> c \<notin> set ''?#''"
  by (auto simp: path_char_def isAlnum_def upper_letters_def lower_letters_def digit_chars_def)

lemma query_char_not_hash: "query_char c \<Longrightarrow> c \<noteq> CHR ''#''"
  by (auto simp: query_char_def isAlnum_def upper_letters_def lower_letters_def digit_chars_def)

lemma split_on_not_Nil: "split_on d s \<noteq> []"
  by (induction s) (auto split: list.splits)

lemma split_on_map:
  assumes "\<And>c. (f c = d) = (c = d)"
  shows "split_on d (map f s) = map (map f) (split_on d s)"
proof (induction s)
  case Nil
  show ?case by simp
next
  case (Cons c cs)
  obtain w ws where w: "split_on d cs = w # ws"
    using split_on_not_Nil [of d cs] by (cases "split_on d cs") auto
  show ?case using Cons w assms by simp
qed

lemma split_on_snoc_delim: "split_on d (s @ [d]) = split_on d s @ [[]]"
proof (induction s)
  case Nil
  show ?case by simp
next
  case (Cons c cs)
  obtain w ws where w: "split_on d cs = w # ws"
    using split_on_not_Nil [of d cs] by (cases "split_on d cs") auto
  show ?case using Cons w by simp
qed

lemma label_ok_lower: "label_ok l \<Longrightarrow> label_ok (toLowerCase l)"
  by (simp add: label_ok_def toLowerCase_idem) (simp add: toLowerCase_def)

lemma host_ok_lower:
  assumes "host_ok h"
  shows "host_ok (toLowerCase h)"
proof -
  let ?ls = "split_on CHR ''.'' h"
  have split: "split_on CHR ''.'' (toLowerCase h) = map toLowerCase ?ls"
    unfolding toLowerCase_def by (rule split_on_map) (rule lowerChar_dot)
  have ne: "?ls \<noteq> []" by (rule split_on_not_Nil)
  have chars: "list_all host_char (toLowerCase h)"
    using assms by (auto simp: host_ok_def toLowerCase_def list_all_iff host_char_lower)
  have labels: "list_all label_ok (map toLowerCase ?ls)"
    using assms by (auto simp: host_ok_def list_all_iff label_ok_lower)
  obtain c cs where l: "last ?ls = c # cs" and a: "isAlpha c"
    using assms by (auto simp: host_ok_def split: list.splits)
  have "last (map toLowerCase ?ls) = lowerChar c # map lowerChar cs"
    using ne l by (simp add: last_map toLowerCase_def)
  then show ?thesis
    unfolding host_ok_def split using chars labels a by (simp add: isAlpha_lower)
qed

lemma endsWith_single: "endsWith p [c] = (p \<noteq> [] \<and> last p = c)"
proof (cases p rule: rev_cases)
  case Nil
  then show ?thesis by (simp add: endsWith_def)
next
  case (snoc xs x)
  then show ?thesis by (simp add: endsWith_def)
qed


lemma path_ok_root: "path_ok ''/''"
  by (simp add: path_ok_def path_char_def)

lemma path_ok_butlast:
  assumes "path_ok p" and "endsWith p ''/''"
  shows "path_ok (butlast p)"
proof -
  from assms(2) have p: "p = butlast p @ ''/''"
    by (simp add: endsWith_single) (metis append_butlast_last_id)
  have "split_on CHR ''/'' p = split_on CHR ''/'' (butlast p) @ [[]]"
    by (subst p) (rule split_on_snoc_delim)
  moreover have "list_all path_char (butlast p)"
    using assms(1) by (auto simp: path_ok_def list_all_iff dest: in_set_butlastD)
  ultimately show ?thesis using assms(1) by (simp add: path_ok_def)
qed

lemma strip_scheme_https: "strip_scheme (''https:'' @ ''//'' @ r) = Some (''https:'', r)"
  by (simp add: strip_scheme_def char_defs)

lemma strip_scheme_http: "strip_scheme (''http:'' @ ''//'' @ r) = Some (''http:'', r)"
  by (simp add: strip_scheme_def char_defs)

lemma strip_scheme_protocol:
  "strip_scheme s = Some (scheme, rest) \<Longrightarrow> scheme = ''https:'' \<or> scheme = ''http:''"
  by (auto simp: strip_scheme_def split: if_splits)

lemma parseURL_SomeD:
  assumes "parseURL u = Some url"
  shows "\<exists>host path.
           (protocol url = ''https:'' \<or> protocol url = ''http:'') \<and>
           host_ok host \<and> hostname url = toLowerCase host \<and>
           path_ok path \<and> (path \<noteq> [] \<longrightarrow> hd path = CHR ''/'') \<and>
           pathname url = (if path = [] then ''/'' else path) \<and>
           (case url_query url of None \<Rightarrow> True | Some qs \<Rightarrow> list_all query_char qs) \<and>
           searchParams url = (case url_query url of None \<Rightarrow> [] | Some qs \<Rightarrow> urlencoded_parse qs)"
proof -
  have "strip_scheme u \<noteq> None"
  proof
    assume "strip_scheme u = None"
    then have "parseURL u = None"
      unfolding parseURL_def by (simp only: option.case)
    with assms show False by simp
  qed
  then obtain scheme rest where sch: "strip_scheme u = Some (scheme, rest)"
    by (cases "strip_scheme u") auto
  let ?host = "takeWhile (\<lambda>c. c \<notin> set ''/?#'') rest"
  let ?rest1 = "dropWhile (\<lambda>c. c \<notin> set ''/?#'') rest"
  let ?path = "takeWhile (\<lambda>c. c \<notin> set ''?#'') ?rest1"
  let ?rest2 = "dropWhile (\<lambda>c. c \<notin> set ''?#'') ?rest1"
  let ?q = "case ?rest2 of [] \<Rightarrow> None
            | c # cs \<Rightarrow> if c = CHR ''?'' then Some (takeWhile (\<lambda>c. c \<noteq> CHR ''#'') cs) else None"
  define C where "C \<longleftrightarrow>
      host_ok ?host \<and> path_ok ?path \<and> (case ?q of None \<Rightarrow> True | Some qs \<Rightarrow> list_all query_char qs)"
  define X where "X = \<lparr> protocol = scheme, hostname = toLowerCase ?host,
        pathname = (if ?path = [] then ''/'' else ?path), url_query = ?q,
        searchParams = (case ?q of None \<Rightarrow> [] | Some qs \<Rightarrow> urlencoded_parse qs) \<rparr>"
  have "parseURL u = (if C then Some X else None)"
    unfolding C_def X_def parseURL_def sch by (simp only: option.case prod.case Let_def)
  with assms have C and "url = X"
    by (cases C; simp)+
  note \<open>C\<close> [unfolded C_def]
  then have ok: "host_ok ?host" "path_ok ?path"
      "case ?q of None \<Rightarrow> True | Some qs \<Rightarrow> list_all query_char qs"
    by (rule conjunct1, rule conjunct2 [THEN conjunct1], rule conjunct2 [THEN conjunct2])
  note url = \<open>url = X\<close> [unfolded X_def]
  have slash: "hd ?path = CHR ''/''" if ne: "?path \<noteq> []"
  proof -
    define r1 where "r1 = ?rest1"
    have "takeWhile (\<lambda>c. c \<notin> set ''?#'') r1 \<noteq> []"
      using ne unfolding r1_def .
    then have r1: "r1 \<noteq> []" by (cases r1) simp_all
    then have delim: "\<not> hd r1 \<notin> set ''/?#''"
      unfolding r1_def by (rule hd_dropWhile)
    from \<open>takeWhile (\<lambda>c. c \<notin> set ''?#'') r1 \<noteq> []\<close>
    obtain c cs where cons: "r1 = c # cs" and c: "c \<notin> set ''?#''"
      by (cases r1) (auto split: if_splits)
    then have "hd (takeWhile (\<lambda>c. c \<notin> set ''?#'') r1) = c" by simp
    moreover have "c = CHR ''/''" using delim c cons by simp
    ultimately show ?thesis unfolding r1_def by simp
  qed
  have fields: "protocol url = scheme" "hostname url = toLowerCase ?host"
      "pathname url = (if ?path = [] then ''/'' else ?path)" "url_query url = ?q"
      "searchParams url = (case ?q of None \<Rightarrow> [] | Some qs \<Rightarrow> urlencoded_parse qs)"
    unfolding url by (simp_all only: URL.select_convs)
  show ?thesis
  proof (intro exI conjI)
    show "protocol url = ''https:'' \<or> protocol url = ''http:''"
      unfolding fields by (rule strip_scheme_protocol [OF sch])
    show "host_ok ?host" by (rule ok)
    show "hostname url = toLowerCase ?host" by (rule fields)
    show "path_ok ?path" by (rule ok)
    show "?path \<noteq> [] \<longrightarrow> hd ?path = CHR ''/''" using slash by blast
    show "pathname url = (if ?path = [] then ''/'' else ?path)" by (rule fields)
    show "case url_query url of None \<Rightarrow> True | Some qs \<Rightarrow> list_all query_char qs"
      unfolding fields by (rule ok)
    show "searchParams url = (case url_query url of None \<Rightarrow> [] | Some qs \<Rightarrow> urlencoded_parse qs)"
      unfolding fields by (rule refl)
  qed
qed

lemma takeWhile_all: "\<forall>x \<in> set xs. P x \<Longrightarrow> (ys = [] \<or> \<not> P (hd ys)) \<Longrightarrow> takeWhile P (xs @ ys) = xs"
  by (cases ys) (simp_all add: takeWhile_tail)

lemma dropWhile_all: "\<forall>x \<in> set xs. P x \<Longrightarrow> (ys = [] \<or> \<not> P (hd ys)) \<Longrightarrow> dropWhile P (xs @ ys) = ys"
  by (cases ys) (simp_all add: dropWhile_append3)

lemma parseURL_build:
  assumes sch: "scheme = ''https:'' \<or> scheme = ''http:''"
    and host: "host_ok h"
    and path: "path_ok p" "p \<noteq> []" "hd p = CHR ''/''"
    and q: "case q of None \<Rightarrow> True | Some qs \<Rightarrow> qs \<noteq> [] \<and> list_all query_char qs"
  shows "parseURL (scheme @ ''//'' @ h @ p @ (case q of None \<Rightarrow> [] | Some qs \<Rightarrow> CHR ''?'' # qs)) =
           Some \<lparr> protocol = scheme, hostname = toLowerCase h, pathname = p, url_query = q,
                  searchParams = (case q of None \<Rightarrow> [] | Some qs \<Rightarrow> urlencoded_parse qs) \<rparr>"
proof -
  let ?s = "case q of None \<Rightarrow> [] | Some qs \<Rightarrow> CHR ''?'' # qs"
  let ?rest = "h @ p @ ?s"
  have strip: "strip_scheme (scheme @ ''//'' @ ?rest) = Some (scheme, ?rest)"
    using sch strip_scheme_https [of ?rest] strip_scheme_http [of ?rest] by auto
  have hchars: "\<forall>c \<in> set h. c \<notin> set ''/?#''"
    using host host_char_not_delim by (auto simp: host_ok_def list_all_iff)
  have pchars: "\<forall>c \<in> set p. c \<notin> set ''?#''"
    using path(1) path_char_not_delim by (auto simp: path_ok_def list_all_iff)
  have p_delim: "p @ ?s = [] \<or> \<not> hd (p @ ?s) \<notin> set ''/?#''"
    using path(2,3) by simp
  have s_delim: "?s = [] \<or> \<not> hd ?s \<notin> set ''?#''"
    by (cases q) simp_all
  have t1: "takeWhile (\<lambda>c. c \<notin> set ''/?#'') ?rest = h"
    by (rule takeWhile_all [OF hchars p_delim])
  have d1: "dropWhile (\<lambda>c. c \<notin> set ''/?#'') ?rest = p @ ?s"
    by (rule dropWhile_all [OF hchars p_delim])
  have t2: "takeWhile (\<lambda>c. c \<notin> set ''?#'') (p @ ?s) = p"
    by (rule takeWhile_all [OF pchars s_delim])
  have d2: "dropWhile (\<lambda>c. c \<notin> set ''?#'') (p @ ?s) = ?s"
    by (rule dropWhile_all [OF pchars s_delim])
  have qq: "(case ?s of [] \<Rightarrow> None
             | c # cs \<Rightarrow> if c = CHR ''?'' then Some (takeWhile (\<lambda>c. c \<noteq> CHR ''#'') cs) else None) = q"
  proof (cases q)
    case None
    then show ?thesis by simp
  next
    case (Some qs)
    then have "\<forall>c \<in> set qs. c \<noteq> CHR ''#''"
      using q query_char_not_hash by (auto simp: list_all_iff)
    then have "takeWhile (\<lambda>c. c \<noteq> CHR ''#'') qs = qs"
      by (simp add: takeWhile_eq_all_conv)
    with Some show ?thesis by simp
  qed
  have qok: "case q of None \<Rightarrow> True | Some qs \<Rightarrow> list_all query_char qs"
    using q by (cases q) simp_all
  have "parseURL (scheme @ ''//'' @ ?rest) =
      (if host_ok h \<and> path_ok p \<and> (case q of None \<Rightarrow> True | Some qs \<Rightarrow> list_all query_char qs)
       then Some \<lparr> protocol = scheme, hostname = toLowerCase h,
                   pathname = (if p = [] then ''/'' else p), url_query = q,
                   searchParams = (case q of None \<Rightarrow> [] | Some qs \<Rightarrow> urlencoded_parse qs) \<rparr>
       else None)"
    unfolding parseURL_def strip
    by (simp only: option.case prod.case Let_def t1 d1 t2 d2 qq)
  then show ?thesis
    using host path(1,2) qok by simp
qed

lemma forEach_no_tracking_params:
  "no_tracking_params url \<Longrightarrow> forEach_delete_utm i url = url"
proof (induction i url rule: forEach_delete_utm.induct)
  case (1 i url)
  show ?case
  proof (cases "i < length (searchParams url)")
    case False
    then show ?thesis by (subst forEach_delete_utm.simps) simp
  next
    case True
    then have key: "\<not> startsWith (toLowerCase (fst (searchParams url ! i))) ''utm_''"
      using "1.prems" by (simp add: no_tracking_params_def list_all_length)
    have "forEach_delete_utm i url = forEach_delete_utm (i + 1) url"
      using True key by (subst forEach_delete_utm.simps) simp
    also have "\<dots> = url"
      using "1.IH" [OF True] key "1.prems" by simp
    finally show ?thesis .
  qed
qed

lemma canonical_no_tracking_params:
  "no_tracking_params url \<Longrightarrow>
   canonical url = protocol url @ ''//'' @ toLowerCase (hostname url) @
     (if length (pathname url) > 1 \<and> endsWith (pathname url) ''/''
      then butlast (pathname url) else pathname url) @ search url"
  by (simp add: canonical_def forEach_no_tracking_params Let_def)

lemma urlencoded_parse_Nil: "urlencoded_parse [] = []"
  by (simp add: urlencoded_parse_def)

lemma parseURL_sentinel: "parseURL ''INVALID_URL'' = None"
  by (simp add: parseURL_def strip_scheme_def char_defs)

lemma hd_butlast_long: "length xs > 1 \<Longrightarrow> hd (butlast xs) = hd xs"
  by (cases xs) (auto split: if_splits)




text \<open>
  The reference parser reads the canonical form of a plain URL without tracking
  parameters back as it was printed.
\<close>

lemma parseURL_reads_back:
  assumes parsed: "parseURL u = Some url" and clean: "no_tracking_params url"
  shows "\<exists>url1. parseURL (canonical url) = Some url1 \<and> reads_back url url1 \<and>
           no_tracking_params url1"
proof -
  from parseURL_SomeD [OF parsed]
  obtain host path where
    sch: "protocol url = ''https:'' \<or> protocol url = ''http:''" and
    host: "host_ok host" "hostname url = toLowerCase host" and
    path: "path_ok path" "path \<noteq> [] \<longrightarrow> hd path = CHR ''/''"
      "pathname url = (if path = [] then ''/'' else path)" and
    qok: "case url_query url of None \<Rightarrow> True | Some qs \<Rightarrow> list_all query_char qs" and
    sp: "searchParams url = (case url_query url of None \<Rightarrow> [] | Some qs \<Rightarrow> urlencoded_parse qs)"
    by blast
  define pn where "pn = pathname url"
  define p' where "p' = (if length pn > 1 \<and> endsWith pn ''/'' then butlast pn else pn)"
  define q' where "q' = (case url_query url of None \<Rightarrow> None
                          | Some qs \<Rightarrow> if qs = [] then None else Some qs)"
  define lh where "lh = toLowerCase host"
  have pn_ok: "path_ok pn" "pn \<noteq> []" "hd pn = CHR ''/''"
    using path path_ok_root by (auto simp: pn_def)
  have p'_ok: "path_ok p'" "p' \<noteq> []" "hd p' = CHR ''/''"
  proof -
    show "path_ok p'"
      using pn_ok(1) by (simp add: p'_def path_ok_butlast)
    show "p' \<noteq> []"
      using pn_ok(2) by (cases pn rule: rev_cases) (auto simp: p'_def)
    show "hd p' = CHR ''/''"
      using pn_ok(3) by (simp add: p'_def hd_butlast_long)
  qed
  have srch: "search url = (case q' of None \<Rightarrow> [] | Some qs \<Rightarrow> CHR ''?'' # qs)"
    by (simp add: search_def q'_def split: option.splits)
  have q'_ok: "case q' of None \<Rightarrow> True | Some qs \<Rightarrow> qs \<noteq> [] \<and> list_all query_char qs"
    using qok by (simp add: q'_def split: option.splits)
  have sp': "(case q' of None \<Rightarrow> [] | Some qs \<Rightarrow> urlencoded_parse qs) = searchParams url"
    using sp by (simp add: q'_def urlencoded_parse_Nil split: option.splits)
  have printed: "canonical url = protocol url @ ''//'' @ lh @ p' @ search url"
    using clean host(2)
    by (simp add: canonical_no_tracking_params p'_def pn_def lh_def toLowerCase_idem)
  define url1 where "url1 = \<lparr> protocol = protocol url, hostname = toLowerCase lh, pathname = p',
      url_query = q', searchParams = searchParams url \<rparr>"
  have reparsed: "parseURL (protocol url @ ''//'' @ lh @ p' @ search url) = Some url1"
    unfolding srch url1_def sp' [symmetric]
    by (rule parseURL_build [OF sch _ p'_ok q'_ok]) (simp add: lh_def host_ok_lower host(1))
  have clean1: "no_tracking_params url1"
    using clean by (simp add: no_tracking_params_def url1_def)
  have "search url1 = (case q' of None \<Rightarrow> [] | Some qs \<Rightarrow> CHR ''?'' # qs)"
    using q'_ok by (cases q') (simp_all add: search_def url1_def)
  then have search1: "search url1 = search url"
    by (simp only: srch)
  have "reads_back url url1"
    using search1 host(2)
    by (simp add: reads_back_def forEach_no_tracking_params [OF clean] Let_def url1_def
        p'_def pn_def lh_def toLowerCase_idem)
  with reparsed clean1 show ?thesis
    unfolding printed by blast
qed




section \<open>Properties of fetchGSCDataForDate\<close>



lemma fetch_loop_rejections:
  "attempt \<le> maxRetries \<Longrightarrow>
   fetch_loop (replicate (Suc (maxRetries - attempt)) (Rejected e) @ later)
       site day allRows startRow attempt sent =
     (Some (Threw (Error (exhausted_message day))),
      sent @ replicate (Suc (maxRetries - attempt)) (mk_request site day startRow))"
proof (induction "maxRetries - attempt" arbitrary: attempt sent)
  case 0
  then show ?case by simp
next
  case (Suc n)
  then have lt: "attempt < maxRetries" and n: "n = maxRetries - (attempt + 1)" 
    and le: "attempt + 1 \<le> maxRetries" and m: "maxRetries - attempt = Suc (maxRetries - (attempt + 1))"
    by simp_all
  show ?case
    using Suc.hyps(1) [OF n le, of "sent @ [mk_request site day startRow]"] lt m
    by (simp add: replicate_app_Cons_same)
qed



text \<open>
  C5, under a client that rejects every request: the counter \<open>attempt\<close> starts at 0
  and a rejection is retried while \<open>attempt < maxRetries\<close>, so the call throws on the
  sixth rejection, after six requests for the same page; after five rejections it has
  not given up yet. The message names the date and \<open>maxRetries\<close>.
\<close>

theorem fetchGSCDataForDate_exhaustion_takes_six_requests:
  "fetchGSCDataForDate (replicate 6 (Rejected e) @ later) site day =
     (Some (Threw (Error (''Failed to fetch GSC data for '' @ day @ '' after 5 attempts.''))),
      replicate 6 (mk_request site day 0))
   \<and> fetchGSCDataForDate (replicate 5 (Rejected e)) site day =
     (None, replicate 5 (mk_request site day 0))"
proof -
  have six: "Suc (maxRetries - 0) = 6" by (simp add: maxRetries_def)
  have msg: "exhausted_message day = ''Failed to fetch GSC data for '' @ day @ '' after 5 attempts.''"
    by (simp add: exhausted_message_def maxRetries_def decimal.simps digit_of_def digit_chars_def)
  have "fetch_loop (replicate (Suc (maxRetries - 0)) (Rejected e) @ later) site day [] 0 0 [] =
      (Some (Threw (Error (exhausted_message day))),
       [] @ replicate (Suc (maxRetries - 0)) (mk_request site day 0))"
    by (rule fetch_loop_rejections) simp
  then have first: "fetchGSCDataForDate (replicate 6 (Rejected e) @ later) site day =
      (Some (Threw (Error (''Failed to fetch GSC data for '' @ day @ '' after 5 attempts.''))),
       replicate 6 (mk_request site day 0))"
    unfolding six msg by (simp add: fetchGSCDataForDate_def)
  have five: "replicate 5 x = [x, x, x, x, x]" for x :: "'a"
    by (simp add: numeral_eq_Suc)
  have second: "fetchGSCDataForDate (replicate 5 (Rejected e)) site day =
      (None, replicate 5 (mk_request site day 0))"
    by (simp add: five fetchGSCDataForDate_def maxRetries_def)
  from first second show ?thesis by simp
qed

section \<open>Properties of writeToFirestoreInBatches\<close>

lemma batchSize_pos: "0 < batchSize"
  by (simp add: batchSize_def)

lemma ceil_div_step:
  assumes b: "0 < (b::nat)" and n: "0 < n"
  shows "(n + (b - 1)) div b = Suc ((n - b + (b - 1)) div b)"
proof (cases "n \<le> b")
  case True
  have lo: "b * 1 \<le> n + (b - 1)" using b n by simp
  have hi: "n + (b - 1) < b * Suc 1" using b True by simp
  have "(n + (b - 1)) div b = 1" using lo hi by (rule div_nat_eqI)
  moreover have "(n - b + (b - 1)) div b = 0" using True b by simp
  ultimately show ?thesis by simp
next
  case False
  have add_b: "(m + b) div b = Suc (m div b)" for m
    using b by simp
  from False have "n + (b - 1) = (n - b + (b - 1)) + b" by simp
  then show ?thesis by (simp only: add_b)
qed

lemma batches_from_step:
  assumes "i < length documents"
  shows "batches_from i documents = Suc (batches_from (i + batchSize) documents)"
proof -
  have pos: "0 < length documents - i" using assms by simp
  have sub: "length documents - (i + batchSize) = length documents - i - batchSize" by simp
  show ?thesis
    unfolding batches_from_def sub by (rule ceil_div_step [OF batchSize_pos pos])
qed

lemma batches_from_done:
  "\<not> i < length documents \<Longrightarrow> batches_from i documents = 0"
  using batchSize_pos by (simp add: batches_from_def)

lemma batches_from_gt_1:
  assumes "Suc k < batches_from i documents"
  shows "batchSize < length documents - i"
proof (rule ccontr)
  assume "\<not> batchSize < length documents - i"
  then have "length documents - i + (batchSize - 1) < batchSize * Suc 1"
    using batchSize_pos by simp
  then have "(length documents - i + (batchSize - 1)) div batchSize < Suc 1"
    using batchSize_pos by (simp add: less_mult_imp_div_less mult.commute)
  with assms show False by (simp add: batches_from_def)
qed

lemma chunk_at_Suc:
  "chunk_at collectionPath documents i (Suc k) = chunk_at collectionPath documents (i + batchSize) k"
  by (simp add: chunk_at_def add.assoc)

lemma chunk_at_0:
  "chunk_at collectionPath documents i 0 = map (Pair collectionPath) (take batchSize (drop i documents))"
  by (simp add: chunk_at_def)

lemma chunks_step:
  "map (chunk_at collectionPath documents i) [0..<Suc m] =
     map (Pair collectionPath) (take batchSize (drop i documents)) #
     map (chunk_at collectionPath documents (i + batchSize)) [0..<m]"
  by (simp only: map_upt_Suc chunk_at_Suc chunk_at_0)

lemma write_loop_ok:
  "\<forall>k < batches_from i documents. db (commit_calls st + k) = None \<Longrightarrow>
   write_loop db collectionPath documents i st =
     (Returned (),
      st\<lparr> batch_calls := batch_calls st + batches_from i documents,
           doc_calls := doc_calls st + (length documents - i),
           commit_calls := commit_calls st + batches_from i documents,
           committed := committed st @
             map (chunk_at collectionPath documents i) [0..<batches_from i documents] \<rparr>)"
proof (induction db collectionPath documents i st rule: write_loop.induct)
  case (1 db collectionPath documents i st)
  show ?case
  proof (cases "i < length documents")
    case False
    then show ?thesis
      by (subst write_loop.simps) (simp add: batches_from_done)
  next
    case True
    let ?m = "batches_from (i + batchSize) documents"
    let ?st = "st\<lparr> batch_calls := batch_calls st + 1,
                   doc_calls := doc_calls st + length (take batchSize (drop i documents)),
                   commit_calls := commit_calls st + 1,
                   committed := committed st @
                     [map (Pair collectionPath) (take batchSize (drop i documents))] \<rparr>"
    have step: "batches_from i documents = Suc ?m"
      using True by (rule batches_from_step)
    have now: "db (commit_calls st) = None"
      using "1.prems" step by (metis add.right_neutral zero_less_Suc)
    have later: "\<forall>k < ?m. db (commit_calls ?st + k) = None"
      using "1.prems" step by auto
    have docs: "length (take batchSize (drop i documents)) + (length documents - (i + batchSize)) =
        length documents - i"
      using True by (simp add: min_def)
    have "write_loop db collectionPath documents i st =
        write_loop db collectionPath documents (i + batchSize) ?st"
      using True now by (subst write_loop.simps) simp
    also have "\<dots> = (Returned (),
        ?st\<lparr> batch_calls := batch_calls ?st + ?m,
             doc_calls := doc_calls ?st + (length documents - (i + batchSize)),
             commit_calls := commit_calls ?st + ?m,
             committed := committed ?st @
               map (chunk_at collectionPath documents (i + batchSize)) [0..<?m] \<rparr>)"
      using "1.IH" [OF True now later] .
    also have "\<dots> = (Returned (),
        st\<lparr> batch_calls := batch_calls st + batches_from i documents,
             doc_calls := doc_calls st + (length documents - i),
             commit_calls := commit_calls st + batches_from i documents,
             committed := committed st @
               map (chunk_at collectionPath documents i) [0..<batches_from i documents] \<rparr>)"
      unfolding step chunks_step using docs by (simp add: add.assoc)
    finally show ?thesis .
  qed
qed

lemma write_loop_fail:
  "k < batches_from i documents \<Longrightarrow> db (commit_calls st + k) = Some e \<Longrightarrow>
   \<forall>j < k. db (commit_calls st + j) = None \<Longrightarrow>
   write_loop db collectionPath documents i st =
     (Threw e,
      st\<lparr> batch_calls := batch_calls st + Suc k,
           doc_calls := doc_calls st + min (length documents - i) (Suc k * batchSize),
           commit_calls := commit_calls st + Suc k,
           committed := committed st @ map (chunk_at collectionPath documents i) [0..<k] \<rparr>)"
proof (induction db collectionPath documents i st arbitrary: k rule: write_loop.induct)
  case (1 db collectionPath documents i st)
  have True: "i < length documents"
    using "1.prems"(1) batches_from_done [of i documents] by (cases "i < length documents") simp_all
  show ?case
  proof (cases k)
    case 0
    then have now: "db (commit_calls st) = Some e" using "1.prems"(2) by simp
    show ?thesis
      using True now 0 by (subst write_loop.simps) (simp add: min_def)
  next
    case (Suc k')
    let ?st = "st\<lparr> batch_calls := batch_calls st + 1,
                   doc_calls := doc_calls st + length (take batchSize (drop i documents)),
                   commit_calls := commit_calls st + 1,
                   committed := committed st @
                     [map (Pair collectionPath) (take batchSize (drop i documents))] \<rparr>"
    have now: "db (commit_calls st) = None"
      using "1.prems"(3) Suc by (metis add.right_neutral zero_less_Suc)
    have k': "k' < batches_from (i + batchSize) documents"
      using "1.prems"(1) Suc batches_from_step [OF True] by simp
    have fails: "db (commit_calls ?st + k') = Some e"
      using "1.prems"(2) Suc by simp
    have before: "\<forall>j < k'. db (commit_calls ?st + j) = None"
      using "1.prems"(3) Suc by auto
    have more_docs: "batchSize < length documents - i"
      using "1.prems"(1) Suc by (simp add: batches_from_gt_1)
    have docs: "length (take batchSize (drop i documents)) +
        min (length documents - (i + batchSize)) (Suc k' * batchSize) =
        min (length documents - i) (Suc (Suc k') * batchSize)"
    proof -
      have gen: "b + min (d - b) s = min d (b + s)" if "b < d" for b d s :: nat
        using that by (auto simp: min_def)
      have len: "length (take batchSize (drop i documents)) = batchSize"
        using more_docs by simp
      have sub: "length documents - (i + batchSize) = length documents - i - batchSize"
        by simp
      have mul: "Suc (Suc k') * batchSize = batchSize + Suc k' * batchSize"
        by simp
      show ?thesis
        unfolding len sub mul by (rule gen [OF more_docs])
    qed
    have "write_loop db collectionPath documents i st =
        write_loop db collectionPath documents (i + batchSize) ?st"
      using True now by (subst write_loop.simps) simp
    also have "\<dots> = (Threw e,
        ?st\<lparr> batch_calls := batch_calls ?st + Suc k',
             doc_calls := doc_calls ?st + min (length documents - (i + batchSize)) (Suc k' * batchSize),
             commit_calls := commit_calls ?st + Suc k',
             committed := committed ?st @
               map (chunk_at collectionPath documents (i + batchSize)) [0..<k'] \<rparr>)"
      using "1.IH" [OF True now k' fails before] .
    also have "\<dots> = (Threw e,
        st\<lparr> batch_calls := batch_calls st + Suc k,
             doc_calls := doc_calls st + min (length documents - i) (Suc k * batchSize),
             commit_calls := commit_calls st + Suc k,
             committed := committed st @ map (chunk_at collectionPath documents i) [0..<k] \<rparr>)"
      unfolding Suc chunks_step using docs by (simp add: add.assoc)
    finally show ?thesis .
  qed
qed

lemma concat_chunks_from:
  "batches_from i documents = n \<Longrightarrow>
   concat (map (chunk_at collectionPath documents i) [0..<n]) =
     map (Pair collectionPath) (drop i documents)"
proof (induction n arbitrary: i)
  case 0
  then have "\<not> i < length documents"
    using batches_from_step [of i documents] by auto
  then show ?case by simp
next
  case (Suc n)
  then have lt: "i < length documents"
    using batches_from_done [of i documents] by (cases "i < length documents") simp_all
  then have "batches_from (i + batchSize) documents = n"
    using Suc.prems batches_from_step [OF lt] by simp
  then have "concat (map (chunk_at collectionPath documents (i + batchSize)) [0..<n]) =
      map (Pair collectionPath) (drop (i + batchSize) documents)"
    by (rule Suc.IH)
  moreover have "take batchSize (drop i documents) @ drop (i + batchSize) documents = drop i documents"
    using append_take_drop_id [of batchSize "drop i documents"] by (simp add: add.commute)
  ultimately show ?case
    unfolding chunks_step by (simp flip: map_append)
qed

lemma length_chunk_at:
  "length (chunk_at collectionPath documents i k) = min batchSize (length documents - (i + k * batchSize))"
  by (simp add: chunk_at_def min.commute)

text \<open>
  C7: when no commit rejects, the function returns after
  \<open>\<lceil>length documents / 500\<rceil>\<close> batches; batch \<open>k\<close> holds the documents at positions
  \<open>500 k\<close> up to \<open>500 k + 500\<close> (the last one what is left), so the batches put end to
  end are the input in its order, and there is one \<open>doc\<close> call per document and one
  commit per batch. For no documents the store is not touched at all. The witness
  gives the batches of 1200, 1000, 100 and 0 documents.
\<close>

theorem writeToFirestoreInBatches_chunks:
  assumes ok: "\<forall>k < (length documents + (batchSize - 1)) div batchSize. db (commit_calls st + k) = None"
  shows "writeToFirestoreInBatches db collectionPath documents st =
           (Returned (),
            st\<lparr> batch_calls := batch_calls st + (length documents + (batchSize - 1)) div batchSize,
                 doc_calls := doc_calls st + length documents,
                 commit_calls := commit_calls st + (length documents + (batchSize - 1)) div batchSize,
                 committed := committed st @
                   map (\<lambda>k. map (Pair collectionPath) (take batchSize (drop (k * batchSize) documents)))
                     [0..<(length documents + (batchSize - 1)) div batchSize] \<rparr>)
         \<and> concat (map (\<lambda>k. map (Pair collectionPath) (take batchSize (drop (k * batchSize) documents)))
                     [0..<(length documents + (batchSize - 1)) div batchSize]) =
           map (Pair collectionPath) documents
         \<and> map (\<lambda>k. length (take batchSize (drop (k * batchSize) documents)))
               [0..<(length documents + (batchSize - 1)) div batchSize] =
           map (\<lambda>k. min batchSize (length documents - k * batchSize))
               [0..<(length documents + (batchSize - 1)) div batchSize]
         \<and> writeToFirestoreInBatches db collectionPath [] st = (Returned (), st)"
proof -
  have nb: "batches_from 0 documents = (length documents + (batchSize - 1)) div batchSize"
    by (simp add: batches_from_def)
  have chunk: "chunk_at collectionPath documents 0 =
      (\<lambda>k. map (Pair collectionPath) (take batchSize (drop (k * batchSize) documents)))"
    by (rule ext) (simp add: chunk_at_def)
  have run: "write_loop db collectionPath documents 0 st =
      (Returned (),
       st\<lparr> batch_calls := batch_calls st + batches_from 0 documents,
            doc_calls := doc_calls st + (length documents - 0),
            commit_calls := commit_calls st + batches_from 0 documents,
            committed := committed st @
              map (chunk_at collectionPath documents 0) [0..<batches_from 0 documents] \<rparr>)"
    by (rule write_loop_ok) (use ok nb in simp)
  have cat: "concat (map (chunk_at collectionPath documents 0) [0..<batches_from 0 documents]) =
      map (Pair collectionPath) (drop 0 documents)"
    by (rule concat_chunks_from) simp
  have none: "writeToFirestoreInBatches db collectionPath [] st = (Returned (), st)"
    by (simp add: writeToFirestoreInBatches_def write_loop.simps)
  show ?thesis
    using run cat none unfolding nb chunk
    by (simp add: writeToFirestoreInBatches_def min.commute)
qed

theorem writeToFirestoreInBatches_chunks_witness:
  "writeToFirestoreInBatches (\<lambda>n. None) ''test-collection'' (replicate 1200 test_doc) empty_firestore =
     (Returned (),
      \<lparr> batch_calls = 3, doc_calls = 1200, commit_calls = 3,
        committed = [replicate 500 (''test-collection'', test_doc),
                     replicate 500 (''test-collection'', test_doc),
                     replicate 200 (''test-collection'', test_doc)] \<rparr>)
   \<and> writeToFirestoreInBatches (\<lambda>n. None) ''test-collection'' (replicate 1000 test_doc) empty_firestore =
     (Returned (),
      \<lparr> batch_calls = 2, doc_calls = 1000, commit_calls = 2,
        committed = [replicate 500 (''test-collection'', test_doc),
                     replicate 500 (''test-collection'', test_doc)] \<rparr>)
   \<and> writeToFirestoreInBatches (\<lambda>n. None) ''test-collection'' (replicate 100 test_doc) empty_firestore =
     (Returned (),
      \<lparr> batch_calls = 1, doc_calls = 100, commit_calls = 1,
        committed = [replicate 100 (''test-collection'', test_doc)] \<rparr>)
   \<and> writeToFirestoreInBatches (\<lambda>n. None) ''test-collection'' [] empty_firestore =
     (Returned (), empty_firestore)"
proof -
  have three: "[0..<3] = [0, 1, 2]" and two: "[0..<2] = [0, 1]"
    by (simp_all add: upt_rec)
  show ?thesis
    using writeToFirestoreInBatches_chunks [of "replicate 1200 test_doc" "\<lambda>n. None" empty_firestore "''test-collection''"]
      writeToFirestoreInBatches_chunks [of "replicate 1000 test_doc" "\<lambda>n. None" empty_firestore "''test-collection''"]
      writeToFirestoreInBatches_chunks [of "replicate 100 test_doc" "\<lambda>n. None" empty_firestore "''test-collection''"]
    by (simp add: batchSize_def empty_firestore_def three two)
qed

text \<open>
  C8: when the commit of batch \<open>k\<close> is the first to reject, with error \<open>e\<close>, the
  function throws that same \<open>e\<close>; exactly \<open>k + 1\<close> batches were created and exactly
  \<open>k + 1\<close> commits issued (the failed one once, none after it), and the store holds the
  \<open>k\<close> batches before it.
\<close>

theorem writeToFirestoreInBatches_first_failure:
  assumes k: "k < (length documents + (batchSize - 1)) div batchSize"
    and fails: "db (commit_calls st + k) = Some e"
    and before: "\<forall>j < k. db (commit_calls st + j) = None"
  shows "writeToFirestoreInBatches db collectionPath documents st =
           (Threw e,
            st\<lparr> batch_calls := batch_calls st + Suc k,
                 doc_calls := doc_calls st + min (length documents) (Suc k * batchSize),
                 commit_calls := commit_calls st + Suc k,
                 committed := committed st @
                   map (\<lambda>j. map (Pair collectionPath) (take batchSize (drop (j * batchSize) documents)))
                     [0..<k] \<rparr>)"
proof -
  have chunk: "chunk_at collectionPath documents 0 =
      (\<lambda>k. map (Pair collectionPath) (take batchSize (drop (k * batchSize) documents)))"
    by (rule ext) (simp add: chunk_at_def)
  have "write_loop db collectionPath documents 0 st =
      (Threw e,
       st\<lparr> batch_calls := batch_calls st + Suc k,
            doc_calls := doc_calls st + min (length documents - 0) (Suc k * batchSize),
            commit_calls := commit_calls st + Suc k,
            committed := committed st @ map (chunk_at collectionPath documents 0) [0..<k] \<rparr>)"
    by (rule write_loop_fail [OF _ fails before]) (use k in \<open>simp add: batches_from_def\<close>)
  then show ?thesis
    unfolding chunk by (simp add: writeToFirestoreInBatches_def)
qed

theorem writeToFirestoreInBatches_first_failure_witness:
  "writeToFirestoreInBatches
     (\<lambda>n. if n = 1 then Some (Error ''Firestore commit failed: permission denied.'') else None)
     ''test-collection'' (replicate 1200 test_doc) empty_firestore =
     (Threw (Error ''Firestore commit failed: permission denied.''),
      \<lparr> batch_calls = 2, doc_calls = 1000, commit_calls = 2,
        committed = [replicate 500 (''test-collection'', test_doc)] \<rparr>)"
  using writeToFirestoreInBatches_first_failure [of 1 "replicate 1200 test_doc"
      "\<lambda>n. if n = 1 then Some (Error ''Firestore commit failed: permission denied.'') else None"
      empty_firestore "Error ''Firestore commit failed: permission denied.''" "''test-collection''"]
  by (simp add: batchSize_def empty_firestore_def)

section \<open>Properties of ingestGSCData\<close>

text \<open>
  Where every step of the date is the same positive amount (24 hours, in UTC), the
  loop visits \<open>start\<close>, \<open>start + step\<close>, ... up to the last of them that is not after
  \<open>end\<close>: every day of the range.
\<close>

lemma loop_dates_fixed_step:
  assumes "0 < step" and "b < a + int n * step" and "n = 0 \<or> a + (int n - 1) * step \<le> b"
  shows "loop_dates (\<lambda>t. t + step) a b (map (\<lambda>k. a + int k * step) [0..<n])"
  using assms
proof (induction n arbitrary: a)
  case 0
  then show ?case by simp
next
  case (Suc n)
  have le: "a \<le> b"
  proof -
    have "a \<le> a + int n * step" using Suc.prems(1) by simp
    also have "\<dots> \<le> b" using Suc.prems(3) by simp
    finally show ?thesis .
  qed
  have upper: "b < (a + step) + int n * step"
    using Suc.prems(2) by (simp add: algebra_simps)
  have lower: "n = 0 \<or> (a + step) + (int n - 1) * step \<le> b"
    using Suc.prems(3) by (simp add: algebra_simps)
  have shift: "map (\<lambda>k. a + int k * step) [0..<Suc n] =
      a # map (\<lambda>k. (a + step) + int k * step) [0..<n]"
    by (simp only: map_upt_Suc) (simp add: algebra_simps)
  show ?case
    unfolding shift using le Suc.IH [OF Suc.prems(1) upper lower] by simp
qed


lemma spec_days_deterministic:
  "spec_days e site ds st rs reqs st' \<Longrightarrow> spec_days e site ds st rs2 reqs2 st2 \<Longrightarrow>
   rs2 = rs \<and> reqs2 = reqs \<and> st2 = st'"
proof (induction arbitrary: rs2 reqs2 st2 rule: spec_days.induct)
  case (no_days st)
  then show ?case by (auto elim: spec_days.cases)
next
  case (fetch_failed d err sent ds st rs reqs st')
  from fetch_failed.prems fetch_failed.hyps(1) show ?case
    by (cases rule: spec_days.cases) (auto dest: fetch_failed.IH)
next
  case (no_rows d sent ds st rs reqs st')
  from no_rows.prems no_rows.hyps(1) show ?case
    by (cases rule: spec_days.cases) (auto dest: no_rows.IH)
next
  case (written d rawRows sent st st1 ds rs reqs st')
  from written.prems written.hyps(1,2,3) show ?case
    by (cases rule: spec_days.cases) (auto dest: written.IH)
next
  case (write_failed d rawRows sent st err st1 ds rs reqs st')
  from write_failed.prems write_failed.hyps(1,2,3) show ?case
    by (cases rule: spec_days.cases) (auto dest: write_failed.IH)
qed






text \<open>
  A range across the end of daylight saving time, 2023-11-04 to 2023-11-07 with the
  local days of New York: the second local day has 25 hours, the fourth instant falls
  an hour after the end of the range, and the loop visits three days.
\<close>

lemma loop_dates_across_dst:
  "loop_dates (\<lambda>t. if t = 1699142400000 then t + 90000000 else t + 86400000)
     1699056000000 1699315200000 [1699056000000, 1699142400000, 1699232400000]"
  by simp

end
